theory Spec2Isabelle
  imports Complex_Main
begin

section \<open>Yellowstone gRPC client: configuration\<close>

text \<open>
  The process environment as \<open>os.getenv\<close> sees it after \<open>load_dotenv()\<close> has run:
  a partial map from variable names to values. A variable that is set to the empty
  string is \<open>Some ''''\<close>; an unset variable is \<open>None\<close>.
\<close>

type_synonym environ = "string \<rightharpoonup> string"

text \<open>\<open>os.getenv(key, default)\<close>: the value when the key is set, the default otherwise.\<close>

definition getenv :: "environ \<Rightarrow> string \<Rightarrow> string \<Rightarrow> string" where
  "getenv env key dflt = (case env key of Some v \<Rightarrow> v | None \<Rightarrow> dflt)"

text \<open>
  The exceptions of the program. \<open>CancelledError\<close> derives from \<open>BaseException\<close>
  (Python 3.8 and later), so \<open>except Exception\<close> does not catch it; every other
  exception here is a subclass of \<open>Exception\<close>. \<open>RpcError\<close> is the transport's
  error (\<open>grpc.aio.AioRpcError\<close>, a \<open>grpc.RpcError\<close>) with what its \<open>code()\<close>
  and \<open>details()\<close> return; the others carry their message.
\<close>

datatype exn =
    ValueError string
  | AttributeError string
  | RpcError string string
  | CancelledError
  | Exception string

fun is_Exception :: "exn \<Rightarrow> bool" where
  "is_Exception CancelledError = False"
| "is_Exception _ = True"

record Config =
  endpoint :: string
  x_token :: string

text \<open>
  \<open>Config.__init__\<close>: read both settings, reject an empty endpoint, append the
  secure port when the endpoint has no \<open>':'\<close>.
\<close>

definition Config_init :: "environ \<Rightarrow> exn + Config" where
  "Config_init env =
     (let ep = getenv env ''GEYSER_ENDPOINT'' ''grpc.solanavibestation.com:443'';
          tok = getenv env ''GEYSER_ACCESS_TOKEN'' ''''
      in if ep = [] then Inl (ValueError ''GEYSER_ENDPOINT is required'')
         else Inr \<lparr>endpoint = (if CHR '':'' \<notin> set ep then ep @ '':443'' else ep),
                   x_token = tok\<rparr>)"

section \<open>Authentication\<close>

type_synonym metadata = "(string \<times> string) list"

text \<open>
  \<open>TritonAuthMetadataPlugin.__call__\<close>: the metadata tuple handed to the callback
  (the callback's error argument is \<open>None\<close> on both branches). The argument is the
  plugin's \<open>x_token\<close>.
\<close>

definition TritonAuthMetadataPlugin_call :: "string \<Rightarrow> metadata" where
  "TritonAuthMetadataPlugin_call tok = (if tok \<noteq> [] then [(''x-token'', tok)] else [])"

text \<open>
  The credential objects \<open>GrpcClient.connect\<close> builds. A call-credential layer holds
  the plugin, that is, the token the plugin was constructed with.
\<close>

datatype call_credentials = metadata_call_credentials string

datatype channel_credentials =
    ssl_channel_credentials
  | composite_channel_credentials channel_credentials call_credentials

definition connect_credentials :: "Config \<Rightarrow> channel_credentials" where
  "connect_credentials cfg =
     (if x_token cfg \<noteq> []
      then composite_channel_credentials ssl_channel_credentials
             (metadata_call_credentials (x_token cfg))
      else ssl_channel_credentials)"

text \<open>
  The metadata a call on a channel carries: the transport invokes the plugin of every
  call-credential layer once per call; plain SSL credentials add nothing.
\<close>

fun call_metadata :: "channel_credentials \<Rightarrow> metadata" where
  "call_metadata ssl_channel_credentials = []"
| "call_metadata (composite_channel_credentials ch (metadata_call_credentials tok)) =
     call_metadata ch @ TritonAuthMetadataPlugin_call tok"

fun has_call_credentials :: "channel_credentials \<Rightarrow> bool" where
  "has_call_credentials ssl_channel_credentials = False"
| "has_call_credentials (composite_channel_credentials ch cc) = True"

section \<open>Log records\<close>

text \<open>
  Every message the program logs, with the values its format string interpolates.
\<close>

datatype log_msg =
    SlotUpdate nat nat int
  | AccountUpdate string nat nat
  | TransactionUpdate nat string
  | BlockUpdate nat string
  | ReceivedPong int
  | UpdateNotFound
  | UnknownUpdateType string
  | ErrorHandlingMessage exn
  | Connecting string
  | Connected
  | Subscribed
  | ReceivedPing int
  | StreamError string string
  | UnexpectedError exn
  | StreamClosed
  | StreamEnded
  | ConnectionFailed rat nat
  | ShuttingDown

datatype log_record = INFO log_msg | WARNING log_msg | ERROR log_msg

section \<open>Inbound updates and the message handler\<close>

text \<open>
  The \<open>update_oneof\<close> of a \<open>SubscribeUpdate\<close>, with the fields the program reads:
  \<^item> \<open>Slot slot parent status\<close>;
  \<^item> \<open>Account pubkey slot lamports\<close>, the pubkey (bytes) as the hex string that
    \<open>pubkey.hex()\<close> gives; pubkey and lamports are those of the sub-message
    \<open>account.account\<close>, which is the default instance when the field is not set;
  \<^item> \<open>Transaction slot signature\<close>, the signature (bytes) as its hex string, read
    from the sub-message \<open>tx.transaction\<close> in the same way;
  \<^item> \<open>Block slot blockhash\<close>, the blockhash a \<open>str\<close> (the schema declares it
    \<open>string\<close>, where pubkey and signature are \<open>bytes\<close>);
  \<^item> \<open>Ping id\<close>, \<open>id\<close> the value of the attribute \<open>id\<close> when the ping message
    has one (\<open>hasattr(update.ping, 'id')\<close>);
  \<^item> \<open>Pong id\<close>;
  \<^item> \<open>Other name\<close>, a variant of the oneof the program has no branch for;
  \<^item> \<open>Unset\<close>, no field of the oneof is set (\<open>WhichOneof\<close> returns \<open>None\<close>).
\<close>

datatype update_oneof =
    Slot nat nat int
  | Account string nat nat
  | Transaction nat string
  | Block nat string
  | Ping "int option"
  | Pong int
  | Other string
  | Unset

text \<open>
  An inbound update. \<open>payload_fault\<close> is the message of the exception that reading
  the payload's fields raises, when the payload is malformed; a well-formed message
  has \<open>None\<close>. \<open>WhichOneof\<close> and \<open>HasField\<close> only inspect which field is set
  and do not read the payload.
\<close>

record update =
  oneof :: update_oneof
  payload_fault :: "string option"

definition WhichOneof :: "update \<Rightarrow> string option" where
  "WhichOneof u =
     (case oneof u of
        Slot s p st \<Rightarrow> Some ''slot''
      | Account pk s lam \<Rightarrow> Some ''account''
      | Transaction s sg \<Rightarrow> Some ''transaction''
      | Block s h \<Rightarrow> Some ''block''
      | Ping i \<Rightarrow> Some ''ping''
      | Pong i \<Rightarrow> Some ''pong''
      | Other n \<Rightarrow> Some n
      | Unset \<Rightarrow> None)"

definition HasField_ping :: "update \<Rightarrow> bool" where
  "HasField_ping u = (case oneof u of Ping i \<Rightarrow> True | _ \<Rightarrow> False)"

text \<open>Reading the payload: raises when the payload is malformed.\<close>

definition read_payload :: "update \<Rightarrow> 'a \<Rightarrow> exn + 'a" where
  "read_payload u r = (case payload_fault u of Some m \<Rightarrow> Inl (Exception m) | None \<Rightarrow> Inr r)"

text \<open>
  The body of the \<open>try\<close> in \<open>MessageHandler.handle_message\<close>: the records logged
  and the value returned, or the exception raised. The branches that format fields of
  the payload read it; the ping, the unset and the unknown branch do not.
  \<^item> A sub-message read from a protobuf message is a message object, and a message
    object is truthy, so the tests \<open>if account.account\<close> and \<open>if tx.transaction\<close>
    always pass and the record is always logged.
  \<^item> The block branch formats \<open>block.blockhash.hex()\<close>. The blockhash is a
    \<open>str\<close>, and \<open>str\<close> has no method \<open>hex\<close>: the call raises
    \<open>AttributeError\<close> before anything is logged.
\<close>

definition handle_body :: "update \<Rightarrow> exn + (log_record list \<times> bool)" where
  "handle_body u =
     (case oneof u of
        Slot s p st \<Rightarrow>
          read_payload u ([INFO (SlotUpdate s (if p \<noteq> 0 then p else 0) st)], True)
      | Account pk s lam \<Rightarrow> read_payload u ([INFO (AccountUpdate pk s lam)], True)
      | Transaction s sg \<Rightarrow> read_payload u ([INFO (TransactionUpdate s sg)], True)
      | Block s h \<Rightarrow>
          (case read_payload u () of
             Inl e \<Rightarrow> Inl e
           | Inr _ \<Rightarrow> Inl (AttributeError ''str object has no attribute hex''))
      | Ping i \<Rightarrow> Inr ([], True)
      | Pong i \<Rightarrow> read_payload u ([INFO (ReceivedPong i)], True)
      | Unset \<Rightarrow> Inr ([ERROR UpdateNotFound], False)
      | Other n \<Rightarrow> Inr ([WARNING (UnknownUpdateType n)], True))"

text \<open>
  \<open>except Exception as e\<close>: an \<open>Exception\<close> becomes an error record and the
  value \<open>False\<close>; anything else would pass through.
\<close>

definition handle_message :: "update \<Rightarrow> exn + (log_record list \<times> bool)" where
  "handle_message u =
     (case handle_body u of
        Inr r \<Rightarrow> Inr r
      | Inl e \<Rightarrow>
          (if is_Exception e then Inr ([ERROR (ErrorHandlingMessage e)], False) else Inl e))"

section \<open>The stream session\<close>

text \<open>
  The requests the outbound iterator yields: the initial subscription (commitment
  \<open>CONFIRMED\<close>, slot filter \<open>client\<close> with \<open>filter_by_commitment\<close>), and a
  ping request carrying an identifier, which is the reply to a server ping.
\<close>

datatype SubscribeRequest = Subscription | PingReply int

text \<open>
  Where the generator \<open>request_iterator\<close> stands: not yet started, suspended inside
  its \<open>while\<close> loop, or returned.
\<close>

datatype iterator_state = NotStarted | Looping | Finished

text \<open>
  The state of one \<open>SubscriptionManager\<close> while \<open>run\<close> executes: the shared
  shutdown flag, the \<open>asyncio.Queue\<close> of ping identifiers (first in, first out,
  unbounded), the generator's position, the requests it has yielded to the transport,
  the updates passed to \<open>handle_message\<close>, and the records logged.
\<close>

record session =
  shutdown_event :: bool
  ping_queue :: "int list"
  iterator :: iterator_state
  sent :: "SubscribeRequest list"
  dispatched :: "update list"
  log :: "log_record list"

text \<open>
  \<open>SubscriptionManager.__init__\<close>: a new, empty queue; the argument is the value
  of the shared shutdown flag.
\<close>

definition SubscriptionManager_init :: "bool \<Rightarrow> session" where
  "SubscriptionManager_init sh =
     \<lparr>shutdown_event = sh, ping_queue = [], iterator = NotStarted, sent = [],
      dispatched = [], log = []\<rparr>"

definition logging :: "log_record list \<Rightarrow> session \<Rightarrow> session" where
  "logging rs s = s\<lparr>log := log s @ rs\<rparr>"

text \<open>
  What happens around the inbound loop, in the order the event loop schedules it:
  the stream delivers an update to \<open>async for\<close>, a termination signal runs
  \<open>signal_handler\<close>, or the transport resumes the request iterator for one step.
\<close>

datatype event = Recv update | Signal | Poll

definition signal_handler :: "session \<Rightarrow> session" where
  "signal_handler s = (logging [INFO ShuttingDown] s)\<lparr>shutdown_event := True\<rparr>"

text \<open>
  One step of \<open>request_iterator\<close>. The first step yields the subscription request.
  Each later step is one pass of the \<open>while\<close> loop: it returns when the shutdown
  flag is set; otherwise \<open>wait_for(ping_queue.get(), 1.0)\<close> takes the oldest
  identifier and the step yields its reply, or times out on an empty queue and the
  loop goes round. (\<open>Queue.get\<close> raises nothing else, so the \<open>except Exception\<close>
  branch is not reached.)
\<close>

definition request_iterator_step :: "session \<Rightarrow> session" where
  "request_iterator_step s =
     (case iterator s of
        NotStarted \<Rightarrow> s\<lparr>iterator := Looping, sent := sent s @ [Subscription]\<rparr>
      | Looping \<Rightarrow>
          (if shutdown_event s then s\<lparr>iterator := Finished\<rparr>
           else (case ping_queue s of
                   [] \<Rightarrow> s
                 | ping_id # rest \<Rightarrow>
                     s\<lparr>ping_queue := rest, sent := sent s @ [PingReply ping_id]\<rparr>))
      | Finished \<Rightarrow> s)"

text \<open>\<open>update.ping.id if hasattr(update.ping, 'id') else 1\<close>\<close>

definition ping_id_of :: "update \<Rightarrow> int" where
  "ping_id_of u = (case oneof u of Ping (Some i) \<Rightarrow> i | _ \<Rightarrow> 1)"

text \<open>How the inbound stream ends if the loop has not left it before.\<close>

datatype stream_end = EndOfStream | Raises exn

text \<open>
  The \<open>async for\<close> loop of \<open>run\<close> over what is scheduled, and its outcome: the
  state and the exception that leaves the loop, if any. A ping is put on the queue
  (\<open>put\<close> on an unbounded queue neither waits nor raises) and logged; every other
  update goes to \<open>handle_message\<close>.
\<close>

fun inbound_loop :: "event list \<Rightarrow> stream_end \<Rightarrow> session \<Rightarrow> session \<times> exn option" where
  "inbound_loop [] EndOfStream s = (s, None)"
| "inbound_loop [] (Raises e) s = (s, Some e)"
| "inbound_loop (Signal # es) fin s = inbound_loop es fin (signal_handler s)"
| "inbound_loop (Poll # es) fin s = inbound_loop es fin (request_iterator_step s)"
| "inbound_loop (Recv u # es) fin s =
     (if shutdown_event s then (s, None)
      else if HasField_ping u then
        inbound_loop es fin
          (logging [INFO (ReceivedPing (ping_id_of u))]
             (s\<lparr>ping_queue := ping_queue s @ [ping_id_of u]\<rparr>))
      else
        (case handle_message u of
           Inl e \<Rightarrow> (s\<lparr>dispatched := dispatched s @ [u]\<rparr>, Some e)
         | Inr (recs, should_continue) \<Rightarrow>
             (let s' = logging recs (s\<lparr>dispatched := dispatched s @ [u]\<rparr>)
              in if should_continue then inbound_loop es fin s' else (s', None))))"

text \<open>
  The \<open>except\<close> clauses and the \<open>finally\<close> of \<open>run\<close>, applied to the outcome of
  the loop: what \<open>run\<close> raises, if anything. The flag is read when the exception
  is handled.
\<close>

fun run_except :: "session \<Rightarrow> exn option \<Rightarrow> session \<times> exn option" where
  "run_except s None = (logging [INFO StreamClosed] s, None)"
| "run_except s (Some (RpcError code details)) =
     (if \<not> shutdown_event s
      then (logging [ERROR (StreamError code details), INFO StreamClosed] s,
            Some (RpcError code details))
      else (logging [INFO StreamClosed] s, None))"
| "run_except s (Some CancelledError) =
     (if \<not> shutdown_event s
      then (logging [INFO StreamClosed] s, Some CancelledError)
      else (logging [INFO StreamClosed] s, None))"
| "run_except s (Some e) =
     (if \<not> shutdown_event s
      then (logging [ERROR (UnexpectedError e), INFO StreamClosed] s, Some e)
      else (logging [INFO StreamClosed] s, None))"

text \<open>\<open>SubscriptionManager.run\<close>\<close>

definition run :: "event list \<Rightarrow> stream_end \<Rightarrow> session \<Rightarrow> session \<times> exn option" where
  "run es fin s =
     (case inbound_loop es fin (logging [INFO Subscribed] s) of
        (s', r) \<Rightarrow> run_except s' r)"

text \<open>
  For stating properties: the identifiers of the pings among the updates delivered,
  in order of receipt; the identifiers of the replies among the requests sent, in
  order of sending; and whether an event leaves the session open, which a signal and
  an update on which the handler reports stop do not.
\<close>

fun pings_of :: "event list \<Rightarrow> int list" where
  "pings_of [] = []"
| "pings_of (Recv u # es) = (if HasField_ping u then ping_id_of u # pings_of es else pings_of es)"
| "pings_of (Signal # es) = pings_of es"
| "pings_of (Poll # es) = pings_of es"

fun pongs_of :: "SubscribeRequest list \<Rightarrow> int list" where
  "pongs_of [] = []"
| "pongs_of (PingReply i # rs) = i # pongs_of rs"
| "pongs_of (Subscription # rs) = pongs_of rs"

fun keeps_open :: "event \<Rightarrow> bool" where
  "keeps_open (Recv u) =
     (HasField_ping u \<or> (case handle_message u of Inr (recs, b) \<Rightarrow> b | Inl e \<Rightarrow> False))"
| "keeps_open Signal = False"
| "keeps_open Poll = True"

section \<open>The client, one connect attempt and the retry loop\<close>

text \<open>
  The channel \<open>aio.secure_channel\<close> creates: its target and its credentials (the
  keepalive options are the same four constants on every channel).
\<close>

record channel =
  target :: string
  credentials :: channel_credentials

record GrpcClient =
  config :: Config
  channel :: "channel option"

definition GrpcClient_init :: "Config \<Rightarrow> GrpcClient" where
  "GrpcClient_init cfg = \<lparr>config = cfg, channel = None\<rparr>"

text \<open>
  What one attempt does to the outside, in order: a record logged by the supervisor or
  the client, a channel created, a channel closed, \<open>asyncio.sleep\<close>, and a stream
  session run to its end (with its final state, which holds its own log).
\<close>

datatype effect =
    Log log_record
  | ChannelOpen channel
  | ChannelClose channel
  | Sleep rat
  | Session session

text \<open>
  \<open>GrpcClient.connect\<close>. The first argument is the exception that building the
  credentials or the channel raises, if any; then \<open>self.channel\<close> is still
  \<open>None\<close>.
\<close>

definition connect :: "exn option \<Rightarrow> GrpcClient \<Rightarrow> effect list \<times> (exn + GrpcClient)" where
  "connect failure client =
     (case failure of
        Some e \<Rightarrow> ([Log (INFO (Connecting (endpoint (config client))))], Inl e)
      | None \<Rightarrow>
          (let ch = \<lparr>target = endpoint (config client),
                      credentials = connect_credentials (config client)\<rparr>
           in ([Log (INFO (Connecting (endpoint (config client)))), ChannelOpen ch,
                Log (INFO Connected)],
               Inr (client\<lparr>channel := Some ch\<rparr>))))"

text \<open>\<open>GrpcClient.close\<close>: closes the channel if there is one.\<close>

definition close :: "GrpcClient \<Rightarrow> effect list" where
  "close client = (case channel client of Some ch \<Rightarrow> [ChannelClose ch] | None \<Rightarrow> [])"

text \<open>
  What the outside does during one call of \<open>connect_and_subscribe\<close>: whether
  connecting fails, what is scheduled while the session runs and how the stream ends,
  whether a termination signal arrives after the session has returned and before the
  next call (during a sleep or the close), and the number in \<open>[0, 1)\<close> that
  \<open>random.random()\<close> returns when the retry decorator computes the wait after this
  call.
\<close>

record attempt =
  connect_failure :: "exn option"
  schedule :: "event list"
  ending :: stream_end
  signal_after :: bool
  jitter_draw :: rat

text \<open>
  \<open>connect_and_subscribe\<close>, the decorated function: its effects, the shutdown flag
  when it leaves, and the exception it raises, if any. The \<open>finally\<close> runs
  \<open>client.close()\<close> on every path that has entered the \<open>try\<close>.
\<close>

definition connect_and_subscribe ::
  "Config \<Rightarrow> bool \<Rightarrow> attempt \<Rightarrow> effect list \<times> bool \<times> exn option" where
  "connect_and_subscribe cfg sh a =
     (if sh then ([], sh, None)
      else
        (let client = GrpcClient_init cfg;
             subscription_manager = SubscriptionManager_init sh
         in case connect (connect_failure a) client of
              (effs, Inl e) \<Rightarrow> (effs @ close client, sh, Some e)
            | (effs, Inr client') \<Rightarrow>
                (case run (schedule a) (ending a) subscription_manager of
                   (s', Some e) \<Rightarrow>
                     (effs @ [Session s'] @ close client', shutdown_event s', Some e)
                 | (s', None) \<Rightarrow>
                     (if shutdown_event s'
                      then (effs @ [Session s'] @ close client', True, None)
                      else (effs @ [Session s', Log (WARNING StreamEnded), Sleep 1]
                              @ close client',
                            False,
                            Some (Exception ''Stream closed, triggering reconnection''))))))"

text \<open>
  The wait generator \<open>backoff.expo\<close> with its defaults (base 2, factor 1, no
  maximum): the value after \<open>n\<close> earlier failures is \<open>factor * base ** n\<close>.
\<close>

definition expo :: "nat \<Rightarrow> rat" where
  "expo n = 1 * 2 ^ n"

text \<open>
  \<open>backoff.full_jitter\<close>, the decorator's default \<open>jitter\<close> (the call in
  \<open>run_with_reconnect\<close> passes none): \<open>random.uniform(0, value)\<close>, which is
  \<open>0 + (value - 0) * random.random()\<close>. The first argument is what
  \<open>random.random()\<close> returns.
\<close>

definition full_jitter :: "rat \<Rightarrow> rat \<Rightarrow> rat" where
  "full_jitter draw v = 0 + (v - 0) * draw"

text \<open>
  How the retry loop stands when the attempts described are used up: the decorated
  function returned, an exception left the decorator, or the loop is about to call
  the function again.
\<close>

datatype outcome = Returned | Raised exn | Retrying

text \<open>
  \<open>backoff.on_exception(backoff.expo, Exception, max_tries=None, max_time=None,
  on_backoff=...)\<close> around \<open>connect_and_subscribe\<close>. The second argument counts the
  failures so far. An \<open>Exception\<close> is caught: with no maximum number of tries, no
  maximum time and the default \<open>giveup\<close> the loop never gives up; it computes the
  wait, calls \<open>on_backoff\<close> (which logs the wait and the number of tries), sleeps
  and calls the function again. Anything that is not an \<open>Exception\<close> leaves the
  decorator.
\<close>

fun retry :: "Config \<Rightarrow> nat \<Rightarrow> bool \<Rightarrow> attempt list \<Rightarrow> effect list \<times> outcome" where
  "retry cfg n sh [] = ([], Retrying)"
| "retry cfg n sh (a # as) =
     (case connect_and_subscribe cfg sh a of
        (effs, sh', None) \<Rightarrow> (effs, Returned)
      | (effs, sh', Some e) \<Rightarrow>
          (if is_Exception e
           then (let seconds = full_jitter (jitter_draw a) (expo n);
                     rest = retry cfg (Suc n) (sh' \<or> signal_after a) as
                 in (effs @ [Log (WARNING (ConnectionFailed seconds (Suc n))), Sleep seconds]
                       @ fst rest,
                     snd rest))
           else (effs, Raised e)))"

text \<open>
  \<open>run_with_reconnect\<close>: the decorated function is called once, and a
  \<open>CancelledError\<close> that leaves it is suppressed.
\<close>

definition run_with_reconnect :: "Config \<Rightarrow> bool \<Rightarrow> attempt list \<Rightarrow> effect list \<times> outcome" where
  "run_with_reconnect cfg sh as =
     (case retry cfg 0 sh as of
        (effs, Raised CancelledError) \<Rightarrow> (effs, Returned)
      | (effs, out) \<Rightarrow> (effs, out))"

text \<open>
  For stating properties: the waits the decorator computed, as \<open>on_backoff\<close> logged
  them; the channels created and the channels closed; the sessions run; an attempt
  that fails with an \<open>Exception\<close> while no shutdown is signalled; and an attempt
  whose session ends without error while no shutdown is signalled.
\<close>

fun backoff_waits :: "effect list \<Rightarrow> rat list" where
  "backoff_waits [] = []"
| "backoff_waits (Log (WARNING (ConnectionFailed w k)) # effs) = w # backoff_waits effs"
| "backoff_waits (e # effs) = backoff_waits effs"

fun channel_opens :: "effect list \<Rightarrow> channel list" where
  "channel_opens [] = []"
| "channel_opens (ChannelOpen ch # effs) = ch # channel_opens effs"
| "channel_opens (e # effs) = channel_opens effs"

fun channel_closes :: "effect list \<Rightarrow> channel list" where
  "channel_closes [] = []"
| "channel_closes (ChannelClose ch # effs) = ch # channel_closes effs"
| "channel_closes (e # effs) = channel_closes effs"

fun sessions :: "effect list \<Rightarrow> session list" where
  "sessions [] = []"
| "sessions (Session s # effs) = s # sessions effs"
| "sessions (e # effs) = sessions effs"



section \<open>Configuration properties\<close>

text \<open>
  Claim C7. For every non-empty configured endpoint string: when it contains no
  \<open>':'\<close>, the effective endpoint is the input followed by \<open>:443\<close>; when it
  contains a \<open>':'\<close>, the effective endpoint is the input unchanged. Loading succeeds
  in both cases.
\<close>

theorem Config_init_endpoint_port:
  assumes "env ''GEYSER_ENDPOINT'' = Some ep" and "ep \<noteq> []"
  shows "\<exists>c. Config_init env = Inr c \<and>
             (CHR '':'' \<notin> set ep \<longrightarrow> endpoint c = ep @ '':443'') \<and>
             (CHR '':'' \<in> set ep \<longrightarrow> endpoint c = ep)"
  using assms by (simp add: Config_init_def getenv_def Let_def)

theorem Config_init_endpoint_port_witness:
  "(\<exists>c. Config_init [''GEYSER_ENDPOINT'' \<mapsto> ''example.com''] = Inr c \<and>
        endpoint c = ''example.com:443'') \<and>
   (\<exists>c. Config_init [''GEYSER_ENDPOINT'' \<mapsto> ''localhost:10000''] = Inr c \<and>
        endpoint c = ''localhost:10000'')"
  using Config_init_endpoint_port [of "[''GEYSER_ENDPOINT'' \<mapsto> ''example.com'']" "''example.com''"]
        Config_init_endpoint_port [of "[''GEYSER_ENDPOINT'' \<mapsto> ''localhost:10000'']" "''localhost:10000''"]
  by simp

text \<open>
  Claim C9. When \<open>GEYSER_ENDPOINT\<close> is unset, loading does not fail and the endpoint
  is the hardcoded default \<open>grpc.solanavibestation.com:443\<close>; loading raises exactly
  when the variable is set to the empty string, and what it raises is the
  configuration error.
\<close>

theorem Config_init_default_endpoint:
  "(env ''GEYSER_ENDPOINT'' = None \<longrightarrow>
      (\<exists>c. Config_init env = Inr c \<and> endpoint c = ''grpc.solanavibestation.com:443'')) \<and>
   ((\<exists>e. Config_init env = Inl e) \<longleftrightarrow> env ''GEYSER_ENDPOINT'' = Some '''') \<and>
   (env ''GEYSER_ENDPOINT'' = Some '''' \<longrightarrow>
      Config_init env = Inl (ValueError ''GEYSER_ENDPOINT is required''))"
  by (auto simp add: Config_init_def getenv_def Let_def split: option.splits)

theorem Config_init_default_endpoint_witness:
  "(\<exists>c. Config_init Map.empty = Inr c \<and> endpoint c = ''grpc.solanavibestation.com:443'') \<and>
   Config_init [''GEYSER_ENDPOINT'' \<mapsto> ''''] = Inl (ValueError ''GEYSER_ENDPOINT is required'')"
  using Config_init_default_endpoint [of Map.empty]
        Config_init_default_endpoint [of "[''GEYSER_ENDPOINT'' \<mapsto> '''']"]
  by simp

section \<open>Authentication properties\<close>

text \<open>
  Claim C8. When the access token is non-empty, the plugin hands the callback exactly
  the one pair \<open>("x-token", token)\<close>, and every call on the channel that
  \<open>connect\<close> builds carries exactly that pair. When the token is empty, the plugin
  hands the callback no metadata, and the channel's credentials are the plain SSL
  credentials with no call-credential layer, so a call carries no metadata.
\<close>

theorem x_token_metadata:
  "(x_token cfg \<noteq> [] \<longrightarrow>
      TritonAuthMetadataPlugin_call (x_token cfg) = [(''x-token'', x_token cfg)] \<and>
      call_metadata (connect_credentials cfg) = [(''x-token'', x_token cfg)]) \<and>
   (x_token cfg = [] \<longrightarrow>
      TritonAuthMetadataPlugin_call (x_token cfg) = [] \<and>
      connect_credentials cfg = ssl_channel_credentials \<and>
      \<not> has_call_credentials (connect_credentials cfg) \<and>
      call_metadata (connect_credentials cfg) = [])"
  by (simp add: TritonAuthMetadataPlugin_call_def connect_credentials_def)

theorem x_token_metadata_witness:
  "call_metadata (connect_credentials \<lparr>endpoint = ''example.com:443'', x_token = ''secret''\<rparr>) =
     [(''x-token'', ''secret'')] \<and>
   connect_credentials \<lparr>endpoint = ''example.com:443'', x_token = ''''\<rparr> = ssl_channel_credentials"
  using x_token_metadata [of "\<lparr>endpoint = ''example.com:443'', x_token = ''secret''\<rparr>"]
        x_token_metadata [of "\<lparr>endpoint = ''example.com:443'', x_token = ''''\<rparr>"]
  by simp

section \<open>Message handler properties\<close>

lemma handle_body_Exception: "handle_body u = Inl e \<Longrightarrow> is_Exception e"
  by (auto simp add: handle_body_def read_payload_def split: update_oneof.splits option.splits)

lemma handle_body_value:
  "handle_body u = Inr (l, b) \<Longrightarrow> b = (oneof u \<noteq> Unset)"
  by (auto simp add: handle_body_def read_payload_def split: update_oneof.splits option.splits)

lemma handle_message_fault:
  assumes "handle_body u = Inl e"
  shows "handle_message u = Inr ([ERROR (ErrorHandlingMessage e)], False)"
proof -
  have "is_Exception e"
    using assms by (rule handle_body_Exception)
  with assms show ?thesis
    by (simp add: handle_message_def)
qed

lemma handle_message_value:
  assumes "handle_body u = Inr r"
  shows "handle_message u = Inr r"
  using assms by (simp add: handle_message_def)

lemma WhichOneof_None: "WhichOneof u = None \<longleftrightarrow> oneof u = Unset"
  by (cases "oneof u") (simp_all add: WhichOneof_def)

text \<open>
  The handler raises nothing, and it reports stop exactly when no field of the oneof
  is set or the body of the \<open>try\<close> raised.
\<close>

lemma handle_message_returns:
  "\<exists>l b. handle_message u = Inr (l, b) \<and>
         (b = False \<longleftrightarrow> (WhichOneof u = None \<or> (\<exists>e. handle_body u = Inl e)))"
proof (cases "handle_body u")
  case (Inl e)
  have m: "handle_message u = Inr ([ERROR (ErrorHandlingMessage e)], False)"
    using Inl by (rule handle_message_fault)
  have r: "\<exists>e. handle_body u = Inl e"
    using Inl by blast
  show ?thesis
    apply (rule exI [of _ "[ERROR (ErrorHandlingMessage e)]"])
    apply (rule exI [of _ False])
    using m r apply simp
    done
next
  case (Inr r)
  obtain l b where r: "r = (l, b)" by (cases r)
  have m: "handle_message u = Inr (l, b)"
    using Inr r by (simp add: handle_message_value)
  have v: "b = (oneof u \<noteq> Unset)"
    using Inr r by (simp add: handle_body_value)
  have n: "\<not> (\<exists>e. handle_body u = Inl e)"
    using Inr by simp
  show ?thesis
    apply (rule exI [of _ l])
    apply (rule exI [of _ b])
    using m v n apply (simp add: WhichOneof_None)
    done
qed

text \<open>
  Claim C5. The claim says that the handler reports continue for every recognised
  variant, block among them, and stop only for the unset case or a caught fault. On a
  well-formed block update the code does otherwise: \<open>WhichOneof\<close> returns
  \<open>'block'\<close>, formatting the log line calls \<open>hex()\<close> on the blockhash string,
  the \<open>AttributeError\<close> is caught by \<open>except Exception\<close>, an error is logged
  and the handler reports stop. This holds for every slot and every blockhash.
\<close>

theorem handle_message_block_stops:
  "WhichOneof \<lparr>oneof = Block s h, payload_fault = None\<rparr> = Some ''block'' \<and>
   handle_message \<lparr>oneof = Block s h, payload_fault = None\<rparr> =
     Inr ([ERROR (ErrorHandlingMessage (AttributeError ''str object has no attribute hex''))],
          False)"
  by (simp add: WhichOneof_def handle_message_def handle_body_def read_payload_def)

section \<open>Stream session properties\<close>

lemma pongs_of_append: "pongs_of (xs @ ys) = pongs_of xs @ pongs_of ys"
  by (induction xs rule: pongs_of.induct) simp_all

lemma request_iterator_step_inv:
  assumes "\<not> shutdown_event s" and "iterator s \<noteq> Finished"
  shows "\<not> shutdown_event (request_iterator_step s) \<and>
         iterator (request_iterator_step s) \<noteq> Finished \<and>
         dispatched (request_iterator_step s) = dispatched s \<and>
         pongs_of (sent (request_iterator_step s)) @ ping_queue (request_iterator_step s) =
           pongs_of (sent s) @ ping_queue s"
  using assms
  by (cases "iterator s"; cases "ping_queue s")
     (simp_all add: request_iterator_step_def pongs_of_append)

lemma keeps_open_continue:
  assumes "keeps_open (Recv u)" and "\<not> HasField_ping u"
  shows "\<exists>recs. handle_message u = Inr (recs, True)"
  using assms by (auto split: sum.splits prod.splits)

lemma inbound_loop_open:
  assumes "list_all keeps_open es" and "\<not> shutdown_event s" and "iterator s \<noteq> Finished"
  shows "\<not> shutdown_event (fst (inbound_loop es fin s)) \<and>
         iterator (fst (inbound_loop es fin s)) \<noteq> Finished \<and>
         pongs_of (sent (fst (inbound_loop es fin s))) @ ping_queue (fst (inbound_loop es fin s)) =
           pongs_of (sent s) @ ping_queue s @ pings_of es \<and>
         snd (inbound_loop es fin s) = (case fin of EndOfStream \<Rightarrow> None | Raises e \<Rightarrow> Some e)"
  using assms
proof (induction es arbitrary: s)
  case Nil
  then show ?case by (cases fin) simp_all
next
  case (Cons ev es)
  show ?case
  proof (cases ev)
    case (Recv u)
    show ?thesis
    proof (cases "HasField_ping u")
      case True
      let ?s = "logging [INFO (ReceivedPing (ping_id_of u))] (s\<lparr>ping_queue := ping_queue s @ [ping_id_of u]\<rparr>)"
      have "\<not> shutdown_event ?s" "iterator ?s \<noteq> Finished"
        using Cons.prems by (simp_all add: logging_def)
      with Cons.IH [of ?s] Cons.prems(1) True Recv Cons.prems(2) show ?thesis
        by (simp add: logging_def)
    next
      case False
      with Cons.prems(1) Recv obtain recs where h: "handle_message u = Inr (recs, True)"
        using keeps_open_continue [of u] by auto
      let ?s = "logging recs (s\<lparr>dispatched := dispatched s @ [u]\<rparr>)"
      have "\<not> shutdown_event ?s" "iterator ?s \<noteq> Finished"
        using Cons.prems by (simp_all add: logging_def)
      with Cons.IH [of ?s] Cons.prems(1) False Recv Cons.prems(2) h show ?thesis
        by (simp add: logging_def)
    qed
  next
    case Signal
    with Cons.prems show ?thesis by simp
  next
    case Poll
    with Cons.IH [of "request_iterator_step s"] Cons.prems request_iterator_step_inv [of s]
    show ?thesis by simp
  qed
qed

lemma inbound_loop_append:
  assumes "list_all keeps_open es" and "\<not> shutdown_event s"
  shows "inbound_loop (es @ es') fin s = inbound_loop es' fin (fst (inbound_loop es EndOfStream s))"
  using assms
proof (induction es arbitrary: s)
  case Nil
  then show ?case by simp
next
  case (Cons ev es)
  show ?case
  proof (cases ev)
    case (Recv u)
    show ?thesis
    proof (cases "HasField_ping u")
      case True
      with Cons Recv show ?thesis by (simp add: logging_def)
    next
      case False
      with Cons.prems(1) Recv obtain recs where h: "handle_message u = Inr (recs, True)"
        using keeps_open_continue [of u] by auto
      with Cons Recv False show ?thesis by (simp add: logging_def)
    qed
  next
    case Signal
    with Cons.prems show ?thesis by simp
  next
    case Poll
    with Cons.IH [of "request_iterator_step s"] Cons.prems request_iterator_step_inv [of s]
    show ?thesis
      by (cases "iterator s"; cases "ping_queue s") (simp_all add: request_iterator_step_def)
  qed
qed

lemma drain_Looping:
  assumes "\<not> shutdown_event s" and "iterator s = Looping" and "length (ping_queue s) \<le> n"
  shows "ping_queue (fst (inbound_loop (replicate n Poll) fin s)) = [] \<and>
         pongs_of (sent (fst (inbound_loop (replicate n Poll) fin s))) =
           pongs_of (sent s) @ ping_queue s"
  using assms
proof (induction n arbitrary: s)
  case 0
  then show ?case by (cases fin) simp_all
next
  case (Suc n)
  show ?case
  proof (cases "ping_queue s")
    case Nil
    then have "request_iterator_step s = s"
      using Suc.prems by (simp add: request_iterator_step_def)
    with Suc.IH [of s] Suc.prems Nil show ?thesis by simp
  next
    case (Cons i q)
    let ?s = "s\<lparr>ping_queue := q, sent := sent s @ [PingReply i]\<rparr>"
    have st: "request_iterator_step s = ?s"
      using Suc.prems Cons by (simp add: request_iterator_step_def)
    have "\<not> shutdown_event ?s" "iterator ?s = Looping" "length (ping_queue ?s) \<le> n"
      using Suc.prems Cons by simp_all
    from Suc.IH [OF this] st Cons show ?thesis
      by (simp add: pongs_of_append)
  qed
qed

lemma drain:
  assumes "\<not> shutdown_event s" and "iterator s \<noteq> Finished" and "length (ping_queue s) < n"
  shows "ping_queue (fst (inbound_loop (replicate n Poll) fin s)) = [] \<and>
         pongs_of (sent (fst (inbound_loop (replicate n Poll) fin s))) =
           pongs_of (sent s) @ ping_queue s"
proof (cases "iterator s")
  case NotStarted
  obtain m where n: "n = Suc m" using assms(3) by (cases n) simp_all
  let ?s = "s\<lparr>iterator := Looping, sent := sent s @ [Subscription]\<rparr>"
  have st: "request_iterator_step s = ?s"
    using NotStarted by (simp add: request_iterator_step_def)
  have "\<not> shutdown_event ?s" "iterator ?s = Looping" "length (ping_queue ?s) \<le> m"
    using assms n by simp_all
  from drain_Looping [OF this, of fin] st n show ?thesis
    by (simp add: pongs_of_append)
next
  case Looping
  with drain_Looping [of s n fin] assms show ?thesis by simp
next
  case Finished
  with assms show ?thesis by simp
qed

lemma request_iterator_step_dispatched:
  "dispatched (request_iterator_step s) = dispatched s"
  by (cases "iterator s"; cases "ping_queue s") (simp_all add: request_iterator_step_def)

lemma inbound_loop_dispatched:
  assumes "\<forall>u \<in> set (dispatched s). \<not> HasField_ping u"
  shows "\<forall>u \<in> set (dispatched (fst (inbound_loop es fin s))). \<not> HasField_ping u"
  using assms
proof (induction es arbitrary: s)
  case Nil
  then show ?case by (cases fin) simp_all
next
  case (Cons ev es)
  show ?case
  proof (cases ev)
    case Signal
    have "\<forall>u \<in> set (dispatched (signal_handler s)). \<not> HasField_ping u"
      using Cons.prems by (simp add: signal_handler_def logging_def)
    from Cons.IH [OF this] Signal show ?thesis by simp
  next
    case Poll
    have "\<forall>u \<in> set (dispatched (request_iterator_step s)). \<not> HasField_ping u"
      using Cons.prems by (simp add: request_iterator_step_dispatched)
    from Cons.IH [OF this] Poll show ?thesis by simp
  next
    case (Recv u)
    show ?thesis
    proof (cases "shutdown_event s")
      case True
      with Cons.prems Recv show ?thesis by simp
    next
      case sh: False
      show ?thesis
      proof (cases "HasField_ping u")
        case True
        let ?s = "logging [INFO (ReceivedPing (ping_id_of u))] (s\<lparr>ping_queue := ping_queue s @ [ping_id_of u]\<rparr>)"
        have "\<forall>u \<in> set (dispatched ?s). \<not> HasField_ping u"
          using Cons.prems by (simp add: logging_def)
        from Cons.IH [OF this] Recv sh True show ?thesis by simp
      next
        case False
        let ?s = "s\<lparr>dispatched := dispatched s @ [u]\<rparr>"
        have d: "\<forall>v \<in> set (dispatched ?s). \<not> HasField_ping v"
          using Cons.prems False by simp
        show ?thesis
        proof (cases "handle_message u")
          case (Inl e)
          with d Recv sh False show ?thesis by simp
        next
          case (Inr r)
          obtain recs b where r: "r = (recs, b)" by (cases r)
          have d': "\<forall>v \<in> set (dispatched (logging recs ?s)). \<not> HasField_ping v"
            using d by (simp add: logging_def)
          show ?thesis
          proof (cases b)
            case True
            from Cons.IH [OF d'] Recv sh False Inr r True show ?thesis by simp
          next
            case b: False
            from d' Recv sh False Inr r b show ?thesis by simp
          qed
        qed
      qed
    qed
  qed
qed

lemma run_except_fields:
  "sent (fst (run_except s r)) = sent s \<and>
   ping_queue (fst (run_except s r)) = ping_queue s \<and>
   dispatched (fst (run_except s r)) = dispatched s \<and>
   shutdown_event (fst (run_except s r)) = shutdown_event s"
  by (induction s r rule: run_except.induct) (simp_all add: logging_def)

lemma run_fields:
  "sent (fst (run es fin s)) = sent (fst (inbound_loop es fin (logging [INFO Subscribed] s))) \<and>
   ping_queue (fst (run es fin s)) = ping_queue (fst (inbound_loop es fin (logging [INFO Subscribed] s))) \<and>
   dispatched (fst (run es fin s)) = dispatched (fst (inbound_loop es fin (logging [INFO Subscribed] s))) \<and>
   shutdown_event (fst (run es fin s)) = shutdown_event (fst (inbound_loop es fin (logging [INFO Subscribed] s)))"
  by (cases "inbound_loop es fin (logging [INFO Subscribed] s)")
     (simp add: run_def run_except_fields)

lemma subscribed_init:
  "\<not> shutdown_event (logging [INFO Subscribed] (SubscriptionManager_init False)) \<and>
   iterator (logging [INFO Subscribed] (SubscriptionManager_init False)) \<noteq> Finished \<and>
   sent (logging [INFO Subscribed] (SubscriptionManager_init False)) = [] \<and>
   ping_queue (logging [INFO Subscribed] (SubscriptionManager_init False)) = [] \<and>
   dispatched (logging [INFO Subscribed] (SubscriptionManager_init False)) = []"
  by (simp add: logging_def SubscriptionManager_init_def)

text \<open>
  Claim C1. Take any schedule that leaves the session open and the shutdown flag
  unset (no signal, and every update that is not a ping is one on which the handler
  reports continue), run from a new subscription manager. Then, however the steps of
  the request iterator are interleaved with the updates: the identifiers of the
  replies sent, followed by the identifiers still on the queue, are exactly the
  identifiers of the pings received, in order of receipt (so each ping is answered
  at most once, with its own identifier, first in first out); no ping is passed to
  the message handler; and once the iterator has been resumed more often than there
  are pings, every ping has been answered and the queue is empty. The identifier of a
  ping is its \<open>id\<close> attribute, or 1 when the ping message has none.
\<close>

theorem ping_replies_fifo:
  assumes "list_all keeps_open es" and "length (pings_of es) < n"
  shows "pongs_of (sent (fst (run es fin (SubscriptionManager_init False)))) @
           ping_queue (fst (run es fin (SubscriptionManager_init False))) = pings_of es \<and>
         (\<forall>u \<in> set (dispatched (fst (run es fin (SubscriptionManager_init False)))).
            \<not> HasField_ping u) \<and>
         pongs_of (sent (fst (run (es @ replicate n Poll) fin (SubscriptionManager_init False)))) =
           pings_of es \<and>
         ping_queue (fst (run (es @ replicate n Poll) fin (SubscriptionManager_init False))) = []"
proof -
  let ?s0 = "logging [INFO Subscribed] (SubscriptionManager_init False)"
  let ?s1 = "fst (inbound_loop es EndOfStream ?s0)"
  have i: "\<not> shutdown_event ?s0" "iterator ?s0 \<noteq> Finished"
    using subscribed_init by simp_all
  have e: "pongs_of (sent ?s0) @ ping_queue ?s0 = []"
    using subscribed_init by simp
  have a: "pongs_of (sent (fst (inbound_loop es fin ?s0))) @ ping_queue (fst (inbound_loop es fin ?s0)) =
             pings_of es"
    using inbound_loop_open [OF assms(1) i, of fin] e by simp
  have d0: "\<forall>u \<in> set (dispatched ?s0). \<not> HasField_ping u"
    using subscribed_init by simp
  have d: "\<forall>u \<in> set (dispatched (fst (inbound_loop es fin ?s0))). \<not> HasField_ping u"
    using d0 by (rule inbound_loop_dispatched)
  have o: "\<not> shutdown_event ?s1" "iterator ?s1 \<noteq> Finished"
    using inbound_loop_open [OF assms(1) i, of EndOfStream] by simp_all
  have q: "pongs_of (sent ?s1) @ ping_queue ?s1 = pings_of es"
    using inbound_loop_open [OF assms(1) i, of EndOfStream] e by simp
  then have "length (pongs_of (sent ?s1)) + length (ping_queue ?s1) = length (pings_of es)"
    by (metis length_append)
  then have l: "length (ping_queue ?s1) < n"
    using assms(2) by simp
  have ap: "inbound_loop (es @ replicate n Poll) fin ?s0 = inbound_loop (replicate n Poll) fin ?s1"
    using assms(1) i(1) by (rule inbound_loop_append)
  have dr: "ping_queue (fst (inbound_loop (replicate n Poll) fin ?s1)) = [] \<and>
            pongs_of (sent (fst (inbound_loop (replicate n Poll) fin ?s1))) =
              pongs_of (sent ?s1) @ ping_queue ?s1"
    using o l by (rule drain)
  show ?thesis
    using a d ap dr q by (simp add: run_fields)
qed

theorem ping_replies_fifo_witness:
  "pongs_of (sent (fst (run
      ([Recv \<lparr>oneof = Ping (Some 7), payload_fault = None\<rparr>,
        Recv \<lparr>oneof = Slot 100 99 1, payload_fault = None\<rparr>,
        Recv \<lparr>oneof = Ping (Some 8), payload_fault = None\<rparr>] @ replicate 3 Poll)
      EndOfStream (SubscriptionManager_init False)))) = [7, 8]"
proof -
  let ?es = "[Recv \<lparr>oneof = Ping (Some 7), payload_fault = None\<rparr>,
              Recv \<lparr>oneof = Slot 100 99 1, payload_fault = None\<rparr>,
              Recv \<lparr>oneof = Ping (Some 8), payload_fault = None\<rparr>]"
  have k: "list_all keeps_open ?es"
    by (simp add: HasField_ping_def handle_message_def handle_body_def read_payload_def)
  have p: "pings_of ?es = [7, 8]"
    by (simp add: HasField_ping_def ping_id_of_def)
  then have l: "length (pings_of ?es) < 3"
    by simp
  from ping_replies_fifo [OF k l, of EndOfStream] p show ?thesis
    by simp
qed

text \<open>
  Claim C4. When the inbound loop is left by a transport error (or by a
  cancellation): with the shutdown flag set, \<open>run\<close> raises nothing; with the flag
  unset it raises that same exception, and for a transport error it first logs the
  stream error with the status code and the details.
\<close>

theorem run_transport_error:
  assumes "inbound_loop es fin (logging [INFO Subscribed] s) = (s', Some e)"
    and "e = RpcError code details \<or> e = CancelledError"
  shows "(shutdown_event s' \<longrightarrow> snd (run es fin s) = None) \<and>
         (\<not> shutdown_event s' \<longrightarrow> snd (run es fin s) = Some e) \<and>
         (\<not> shutdown_event s' \<and> e = RpcError code details \<longrightarrow>
            log (fst (run es fin s)) =
              log s' @ [ERROR (StreamError code details), INFO StreamClosed])"
  using assms by (auto simp add: run_def logging_def)

theorem run_transport_error_witness:
  "snd (run [] (Raises (RpcError ''UNAVAILABLE'' ''reset'')) (SubscriptionManager_init False)) =
     Some (RpcError ''UNAVAILABLE'' ''reset'') \<and>
   snd (run [Signal] (Raises (RpcError ''UNAVAILABLE'' ''reset'')) (SubscriptionManager_init False)) =
     None"
proof
  have "inbound_loop [] (Raises (RpcError ''UNAVAILABLE'' ''reset''))
          (logging [INFO Subscribed] (SubscriptionManager_init False)) =
        (logging [INFO Subscribed] (SubscriptionManager_init False),
         Some (RpcError ''UNAVAILABLE'' ''reset''))"
    by simp
  from run_transport_error [OF this, of "''UNAVAILABLE''" "''reset''"]
  show "snd (run [] (Raises (RpcError ''UNAVAILABLE'' ''reset'')) (SubscriptionManager_init False)) =
          Some (RpcError ''UNAVAILABLE'' ''reset'')"
    by (simp add: logging_def SubscriptionManager_init_def)
next
  have "inbound_loop [Signal] (Raises (RpcError ''UNAVAILABLE'' ''reset''))
          (logging [INFO Subscribed] (SubscriptionManager_init False)) =
        (signal_handler (logging [INFO Subscribed] (SubscriptionManager_init False)),
         Some (RpcError ''UNAVAILABLE'' ''reset''))"
    by simp
  from run_transport_error [OF this, of "''UNAVAILABLE''" "''reset''"]
  show "snd (run [Signal] (Raises (RpcError ''UNAVAILABLE'' ''reset''))
               (SubscriptionManager_init False)) = None"
    by (simp add: signal_handler_def)
qed

section \<open>Connect attempt properties\<close>


lemma channel_opens_append: "channel_opens (xs @ ys) = channel_opens xs @ channel_opens ys"
  by (induction xs rule: channel_opens.induct) simp_all

lemma channel_closes_append: "channel_closes (xs @ ys) = channel_closes xs @ channel_closes ys"
  by (induction xs rule: channel_closes.induct) simp_all

lemma sessions_append: "sessions (xs @ ys) = sessions xs @ sessions ys"
  by (induction xs rule: sessions.induct) simp_all

text \<open>The paths through one attempt.\<close>

lemma attempt_shutdown: "connect_and_subscribe cfg True a = ([], True, None)"
  by (simp add: connect_and_subscribe_def)

lemma attempt_connect_fails:
  assumes "connect_failure a = Some e"
  shows "connect_and_subscribe cfg False a =
           ([Log (INFO (Connecting (endpoint cfg)))], False, Some e)"
  using assms
  by (simp add: connect_and_subscribe_def connect_def close_def GrpcClient_init_def)

lemma attempt_stream_raises:
  assumes "connect_failure a = None"
    and "run (schedule a) (ending a) (SubscriptionManager_init False) = (s', Some e)"
  shows "connect_and_subscribe cfg False a =
           ([Log (INFO (Connecting (endpoint cfg))),
             ChannelOpen \<lparr>target = endpoint cfg, credentials = connect_credentials cfg\<rparr>,
             Log (INFO Connected), Session s',
             ChannelClose \<lparr>target = endpoint cfg, credentials = connect_credentials cfg\<rparr>],
            shutdown_event s', Some e)"
  using assms
  by (simp add: connect_and_subscribe_def connect_def close_def GrpcClient_init_def Let_def)

lemma attempt_stream_shutdown:
  assumes "connect_failure a = None"
    and "run (schedule a) (ending a) (SubscriptionManager_init False) = (s', None)"
    and "shutdown_event s'"
  shows "connect_and_subscribe cfg False a =
           ([Log (INFO (Connecting (endpoint cfg))),
             ChannelOpen \<lparr>target = endpoint cfg, credentials = connect_credentials cfg\<rparr>,
             Log (INFO Connected), Session s',
             ChannelClose \<lparr>target = endpoint cfg, credentials = connect_credentials cfg\<rparr>],
            True, None)"
  using assms
  by (simp add: connect_and_subscribe_def connect_def close_def GrpcClient_init_def Let_def)

lemma attempt_stream_ended:
  assumes "connect_failure a = None"
    and "run (schedule a) (ending a) (SubscriptionManager_init False) = (s', None)"
    and "\<not> shutdown_event s'"
  shows "connect_and_subscribe cfg False a =
           ([Log (INFO (Connecting (endpoint cfg))),
             ChannelOpen \<lparr>target = endpoint cfg, credentials = connect_credentials cfg\<rparr>,
             Log (INFO Connected), Session s', Log (WARNING StreamEnded), Sleep 1,
             ChannelClose \<lparr>target = endpoint cfg, credentials = connect_credentials cfg\<rparr>],
            False, Some (Exception ''Stream closed, triggering reconnection''))"
  using assms
  by (simp add: connect_and_subscribe_def connect_def close_def GrpcClient_init_def Let_def)

lemma attempt_cases:
  fixes sh :: bool and a :: attempt
  obtains (shutdown) "sh"
  | (connect_fails) e where "\<not> sh" "connect_failure a = Some e"
  | (raises) s' e where "\<not> sh" "connect_failure a = None"
      "run (schedule a) (ending a) (SubscriptionManager_init False) = (s', Some e)"
  | (stopped) s' where "\<not> sh" "connect_failure a = None"
      "run (schedule a) (ending a) (SubscriptionManager_init False) = (s', None)"
      "shutdown_event s'"
  | (ended) s' where "\<not> sh" "connect_failure a = None"
      "run (schedule a) (ending a) (SubscriptionManager_init False) = (s', None)"
      "\<not> shutdown_event s'"
proof (cases sh)
  case True
  then show ?thesis by (rule shutdown)
next
  case False
  show ?thesis
  proof (cases "connect_failure a")
    case (Some e)
    with False show ?thesis by (rule connect_fails)
  next
    case None
    obtain s' r where r: "run (schedule a) (ending a) (SubscriptionManager_init False) = (s', r)"
      by (cases "run (schedule a) (ending a) (SubscriptionManager_init False)")
    show ?thesis
    proof (cases r)
      case (Some e)
      with False None r show ?thesis by (auto intro: raises)
    next
      case n: None
      show ?thesis
      proof (cases "shutdown_event s'")
        case True
        with False None r n show ?thesis by (auto intro: stopped)
      next
        case f: False
        with False None r n show ?thesis by (auto intro: ended)
      qed
    qed
  qed
qed

lemma attempt_effects:
  "backoff_waits (fst (connect_and_subscribe cfg sh a)) = [] \<and>
   channel_closes (fst (connect_and_subscribe cfg sh a)) =
     channel_opens (fst (connect_and_subscribe cfg sh a)) \<and>
   channel_opens (fst (connect_and_subscribe cfg sh a)) =
     (if sh \<or> connect_failure a \<noteq> None then []
      else [\<lparr>target = endpoint cfg, credentials = connect_credentials cfg\<rparr>]) \<and>
   (\<forall>s \<in> set (sessions (fst (connect_and_subscribe cfg sh a))).
      s = fst (run (schedule a) (ending a) (SubscriptionManager_init False)))"
proof (rule attempt_cases [where sh = sh and a = a], goal_cases shutdown connect_fails raises stopped ended)
  case shutdown
  then show ?case by (simp add: attempt_shutdown)
next
  case (connect_fails e)
  then show ?case by (simp add: attempt_connect_fails)
next
  case (raises s' e)
  then show ?case by (simp add: attempt_stream_raises)
next
  case (stopped s')
  then show ?case by (simp add: attempt_stream_shutdown)
next
  case (ended s')
  then show ?case by (simp add: attempt_stream_ended)
qed

text \<open>
  Claim C6. In every call of \<open>connect_and_subscribe\<close> the channels closed are
  exactly the channels created: one channel, closed once, when the call got past the
  shutdown check and \<open>connect\<close> succeeded (whether the session then ended, raised,
  was cancelled or was stopped by the shutdown flag), and none when the call returned
  at the shutdown check or \<open>connect\<close> failed before a channel existed. \<open>close\<close>
  on a client that has no channel does nothing.
\<close>

theorem channel_closed_once:
  "channel_closes (fst (connect_and_subscribe cfg sh a)) =
     channel_opens (fst (connect_and_subscribe cfg sh a)) \<and>
   channel_opens (fst (connect_and_subscribe cfg sh a)) =
     (if sh \<or> connect_failure a \<noteq> None then []
      else [\<lparr>target = endpoint cfg, credentials = connect_credentials cfg\<rparr>]) \<and>
   close (GrpcClient_init cfg) = []"
  using attempt_effects [of cfg sh a] by (simp add: close_def GrpcClient_init_def)

section \<open>Retry loop properties\<close>







theorem channel_closed_once_witness:
  "channel_closes (fst (connect_and_subscribe \<lparr>endpoint = ''example.com:443'', x_token = ''''\<rparr> False
      \<lparr>connect_failure = None, schedule = [],
       ending = Raises (RpcError ''UNAVAILABLE'' ''reset''),
       signal_after = False, jitter_draw = 1 / 2\<rparr>)) =
     [\<lparr>target = ''example.com:443'', credentials = ssl_channel_credentials\<rparr>] \<and>
   channel_closes (fst (connect_and_subscribe \<lparr>endpoint = ''example.com:443'', x_token = ''''\<rparr> False
      \<lparr>connect_failure = Some (Exception ''no channel''), schedule = [],
       ending = EndOfStream, signal_after = False, jitter_draw = 1 / 2\<rparr>)) = []"
  using channel_closed_once [of "\<lparr>endpoint = ''example.com:443'', x_token = ''''\<rparr>" False
          "\<lparr>connect_failure = None, schedule = [],
            ending = Raises (RpcError ''UNAVAILABLE'' ''reset''),
            signal_after = False, jitter_draw = 1 / 2\<rparr>"]
        channel_closed_once [of "\<lparr>endpoint = ''example.com:443'', x_token = ''''\<rparr>" False
          "\<lparr>connect_failure = Some (Exception ''no channel''), schedule = [],
            ending = EndOfStream, signal_after = False, jitter_draw = 1 / 2\<rparr>"]
  by (simp add: connect_credentials_def)




section \<open>Sessions of successive attempts\<close>

lemma request_iterator_step_pongs:
  "pongs_of (sent (request_iterator_step s)) @ ping_queue (request_iterator_step s) =
     pongs_of (sent s) @ ping_queue s"
  by (cases "iterator s"; cases "ping_queue s"; cases "shutdown_event s")
     (simp_all add: request_iterator_step_def pongs_of_append)

lemma inbound_loop_prefix:
  "\<exists>rest. pongs_of (sent (fst (inbound_loop es fin s))) @
            ping_queue (fst (inbound_loop es fin s)) @ rest =
          pongs_of (sent s) @ ping_queue s @ pings_of es"
proof (induction es arbitrary: s)
  case Nil
  then show ?case by (cases fin) simp_all
next
  case (Cons ev es)
  show ?case
  proof (cases ev)
    case Signal
    from Cons.IH [of "signal_handler s"] Signal show ?thesis
      by (simp add: signal_handler_def logging_def)
  next
    case Poll
    have "pongs_of (sent (request_iterator_step s)) @ ping_queue (request_iterator_step s) @
            pings_of es = pongs_of (sent s) @ ping_queue s @ pings_of es"
      using request_iterator_step_pongs [of s] by (metis append.assoc)
    with Cons.IH [of "request_iterator_step s"] Poll show ?thesis
      by simp
  next
    case (Recv u)
    show ?thesis
    proof (cases "shutdown_event s")
      case True
      with Recv show ?thesis by simp
    next
      case sh: False
      show ?thesis
      proof (cases "HasField_ping u")
        case True
        let ?s = "logging [INFO (ReceivedPing (ping_id_of u))] (s\<lparr>ping_queue := ping_queue s @ [ping_id_of u]\<rparr>)"
        from Cons.IH [of ?s] Recv sh True show ?thesis
          by (simp add: logging_def)
      next
        case False
        show ?thesis
        proof (cases "handle_message u")
          case (Inl e)
          with Recv sh False show ?thesis by simp
        next
          case (Inr r)
          obtain recs b where r: "r = (recs, b)" by (cases r)
          let ?s = "logging recs (s\<lparr>dispatched := dispatched s @ [u]\<rparr>)"
          show ?thesis
          proof (cases b)
            case True
            from Cons.IH [of ?s] Recv sh False Inr r True show ?thesis
              by (simp add: logging_def)
          next
            case b: False
            from Recv sh False Inr r b show ?thesis
              by (simp add: logging_def)
          qed
        qed
      qed
    qed
  qed
qed

lemma run_prefix:
  "\<exists>rest. pongs_of (sent (fst (run es fin (SubscriptionManager_init False)))) @ rest =
          pings_of es"
proof -
  let ?s0 = "logging [INFO Subscribed] (SubscriptionManager_init False)"
  obtain rest where "pongs_of (sent (fst (inbound_loop es fin ?s0))) @
      ping_queue (fst (inbound_loop es fin ?s0)) @ rest =
      pongs_of (sent ?s0) @ ping_queue ?s0 @ pings_of es"
    using inbound_loop_prefix [of es fin ?s0] by blast
  then have "pongs_of (sent (fst (run es fin (SubscriptionManager_init False)))) @
      (ping_queue (fst (inbound_loop es fin ?s0)) @ rest) = pings_of es"
    using subscribed_init by (simp add: run_fields)
  then show ?thesis by blast
qed

lemma retry_sessions:
  "\<forall>s \<in> set (sessions (fst (retry cfg n sh as))).
     \<exists>a \<in> set as. s = fst (run (schedule a) (ending a) (SubscriptionManager_init False))"
proof (induction as arbitrary: n sh)
  case Nil
  then show ?case by simp
next
  case (Cons a as)
  obtain effs sh' r where c: "connect_and_subscribe cfg sh a = (effs, sh', r)"
    by (cases "connect_and_subscribe cfg sh a")
  have e: "\<forall>s \<in> set (sessions effs).
             s = fst (run (schedule a) (ending a) (SubscriptionManager_init False))"
    using attempt_effects [of cfg sh a] c by simp
  show ?case
  proof (cases r)
    case None
    with c e show ?thesis by simp
  next
    case (Some x)
    show ?thesis
    proof (cases "is_Exception x")
      case True
      have "sessions (fst (retry cfg n sh (a # as))) =
              sessions effs @ sessions (fst (retry cfg (Suc n) (sh' \<or> signal_after a) as))"
        using c Some True by (simp add: Let_def sessions_append)
      with e Cons.IH [of "Suc n" "sh' \<or> signal_after a"] show ?thesis
        by auto
    next
      case False
      with c e Some show ?thesis by simp
    qed
  qed
qed

lemma run_with_reconnect_effects:
  "fst (run_with_reconnect cfg sh as) = fst (retry cfg 0 sh as)"
proof (cases "retry cfg 0 sh as")
  case (Pair effs out)
  then show ?thesis
    by (cases out) (simp_all add: run_with_reconnect_def split: exn.splits)
qed

text \<open>
  Claim C10. A new subscription manager starts with an empty queue and nothing sent.
  Every session the supervisor runs is the session of one of its attempts, run from a
  new subscription manager, and the identifiers of the replies sent in it are an
  initial part of the identifiers of the pings received in that same attempt: no
  reply answers a ping of an earlier session.
\<close>

theorem fresh_queue_per_attempt:
  "ping_queue (SubscriptionManager_init sh') = [] \<and>
   sent (SubscriptionManager_init sh') = [] \<and>
   (\<forall>s \<in> set (sessions (fst (run_with_reconnect cfg sh as))).
      \<exists>a \<in> set as.
        s = fst (run (schedule a) (ending a) (SubscriptionManager_init False)) \<and>
        (\<exists>rest. pongs_of (sent s) @ rest = pings_of (schedule a)))"
proof -
  have "\<forall>s \<in> set (sessions (fst (run_with_reconnect cfg sh as))).
      \<exists>a \<in> set as.
        s = fst (run (schedule a) (ending a) (SubscriptionManager_init False)) \<and>
        (\<exists>rest. pongs_of (sent s) @ rest = pings_of (schedule a))"
  proof
    fix s assume "s \<in> set (sessions (fst (run_with_reconnect cfg sh as)))"
    then have "s \<in> set (sessions (fst (retry cfg 0 sh as)))"
      by (simp add: run_with_reconnect_effects)
    then obtain a where a: "a \<in> set as"
        "s = fst (run (schedule a) (ending a) (SubscriptionManager_init False))"
      using retry_sessions [of cfg 0 sh as] by blast
    have "\<exists>rest. pongs_of (sent s) @ rest = pings_of (schedule a)"
      unfolding a(2) by (rule run_prefix)
    with a show "\<exists>a \<in> set as.
        s = fst (run (schedule a) (ending a) (SubscriptionManager_init False)) \<and>
        (\<exists>rest. pongs_of (sent s) @ rest = pings_of (schedule a))"
      by blast
  qed
  then show ?thesis
    by (simp add: SubscriptionManager_init_def)
qed

lemma attempt_session:
  assumes "connect_failure a = None"
  shows "sessions (fst (connect_and_subscribe cfg False a)) =
           [fst (run (schedule a) (ending a) (SubscriptionManager_init False))]"
proof (rule attempt_cases [where sh = False and a = a], goal_cases shutdown connect_fails raises stopped ended)
  case shutdown
  then show ?case by simp
next
  case (connect_fails e)
  with assms show ?case by simp
next
  case (raises s' e)
  then show ?case by (simp add: attempt_stream_raises)
next
  case (stopped s')
  then show ?case by (simp add: attempt_stream_shutdown)
next
  case (ended s')
  then show ?case by (simp add: attempt_stream_ended)
qed

lemma retry_first_session:
  assumes "connect_failure a = None"
  shows "fst (run (schedule a) (ending a) (SubscriptionManager_init False))
           \<in> set (sessions (fst (retry cfg n False (a # as))))"
proof -
  obtain effs sh' r where c: "connect_and_subscribe cfg False a = (effs, sh', r)"
    by (cases "connect_and_subscribe cfg False a")
  have e: "sessions effs = [fst (run (schedule a) (ending a) (SubscriptionManager_init False))]"
    using attempt_session [OF assms, of cfg] c by simp
  show ?thesis
  proof (cases r)
    case None
    with c e show ?thesis by simp
  next
    case (Some x)
    with c e show ?thesis
      by (cases "is_Exception x") (simp_all add: Let_def sessions_append)
  qed
qed

theorem fresh_queue_per_attempt_witness:
  "\<exists>rest. pongs_of (sent (fst (run
       [Recv \<lparr>oneof = Ping (Some 9), payload_fault = None\<rparr>, Poll, Poll] EndOfStream
       (SubscriptionManager_init False)))) @ rest = [9]"
proof -
  let ?cfg = "\<lparr>endpoint = ''example.com:443'', x_token = ''''\<rparr>"
  let ?a = "\<lparr>connect_failure = None,
          schedule = [Recv \<lparr>oneof = Ping (Some 9), payload_fault = None\<rparr>, Poll, Poll],
          ending = EndOfStream, signal_after = False, jitter_draw = 1 / 2\<rparr>"
  let ?s = "fst (run (schedule ?a) (ending ?a) (SubscriptionManager_init False))"
  have "connect_failure ?a = None"
    by simp
  then have "?s \<in> set (sessions (fst (retry ?cfg 0 False [?a])))"
    by (rule retry_first_session)
  then have m: "?s \<in> set (sessions (fst (run_with_reconnect ?cfg False [?a])))"
    by (simp only: run_with_reconnect_effects)
  from fresh_queue_per_attempt [of False ?cfg False "[?a]"] m
  obtain a where a: "a \<in> set [?a]"
      and r: "\<exists>rest. pongs_of (sent ?s) @ rest = pings_of (schedule a)"
    by blast
  from a have "a = ?a"
    by simp
  moreover have "pings_of (schedule ?a) = [9]"
    by (simp add: HasField_ping_def ping_id_of_def)
  ultimately have "\<exists>rest. pongs_of (sent ?s) @ rest = [9]"
    using r by metis
  then show ?thesis
    by simp
qed

end
